theory Spec2Isabelle
  imports Complex_Main "HOL-Library.Log_Nat"
begin

section \<open>Paths: the functions of \<open>os.path\<close> and \<open>pathlib\<close> that the converter calls\<close>

text \<open>
  File names are Python strings; the model takes them as \<open>string\<close> and follows the POSIX
  flavour of the library (\<open>posixpath\<close>, \<open>PurePosixPath\<close>), where the separator is the
  slash.
\<close>

type_synonym path = string

text \<open>\<open>os.path.basename(p)\<close> is \<open>p[p.rfind('/') + 1:]\<close>: what follows the last slash.\<close>

definition os_path_basename :: "path \<Rightarrow> string" where
  "os_path_basename p = rev (takeWhile (\<lambda>c. c \<noteq> CHR ''/'') (rev p))"

text \<open>
  \<open>os.path.dirname(p)\<close>: \<open>head = p[:p.rfind('/') + 1]\<close>, and trailing slashes are
  stripped from \<open>head\<close> unless it consists of slashes only.
\<close>

definition os_path_dirname :: "path \<Rightarrow> path" where
  "os_path_dirname p =
     (let head = rev (dropWhile (\<lambda>c. c \<noteq> CHR ''/'') (rev p))
      in if head \<noteq> [] \<and> \<not> list_all (\<lambda>c. c = CHR ''/'') head
         then rev (dropWhile (\<lambda>c. c = CHR ''/'') (rev head))
         else head)"

text \<open>
  \<open>os.path.join(a, b)\<close> with two arguments: an absolute \<open>b\<close> replaces \<open>a\<close>; otherwise
  \<open>b\<close> is appended, after a slash unless \<open>a\<close> is empty or already ends in one.
\<close>

definition os_path_join :: "path \<Rightarrow> path \<Rightarrow> path" where
  "os_path_join a b =
     (if b \<noteq> [] \<and> hd b = CHR ''/'' then b
      else if a = [] \<or> last a = CHR ''/'' then a @ b
      else a @ ''/'' @ b)"

text \<open>\<open>s.split('/')\<close>: the pieces between slashes, empty pieces included.\<close>

fun split_slash :: "string \<Rightarrow> string list" where
  "split_slash [] = [[]]"
| "split_slash (c # cs) =
     (if c = CHR ''/'' then [] # split_slash cs
      else (case split_slash cs of w # ws \<Rightarrow> (c # w) # ws | [] \<Rightarrow> [[c]]))"

text \<open>
  \<open>Path(p).name\<close>: the last component of the parsed path; parsing drops empty components
  and single dots. A path without components has the empty name.
\<close>

definition Path_name :: "path \<Rightarrow> string" where
  "Path_name p =
     (case filter (\<lambda>w. w \<noteq> [] \<and> w \<noteq> ''.'') (split_slash p) of
        [] \<Rightarrow> []
      | w # ws \<Rightarrow> last (w # ws))"

text \<open>
  \<open>Path(p).stem\<close>: with \<open>i = name.rfind('.')\<close>, the stem is \<open>name[:i]\<close> when
  \<open>0 < i < len(name) - 1\<close> and the whole name otherwise.
\<close>

definition Path_stem :: "path \<Rightarrow> string" where
  "Path_stem p =
     (let name = Path_name p;
          front = rev (tl (dropWhile (\<lambda>c. c \<noteq> CHR ''.'') (rev name)));
          ext = rev (takeWhile (\<lambda>c. c \<noteq> CHR ''.'') (rev name))
      in if CHR ''.'' \<in> set name \<and> front \<noteq> [] \<and> ext \<noteq> [] then front else name)"


section \<open>Percentages: Python's float arithmetic\<close>

text \<open>
  \<open>int((i + 1) / total_files * 100)\<close> divides two integers into a float, multiplies the
  float by 100 and truncates. Both operations return the exact result rounded to the nearest
  binary64 number, ties to the even mantissa. The model computes on rationals and rounds to
  53 significant bits; the quotients and products that occur here lie far inside the range
  of normal binary64 numbers, so exponent limits play no part.
\<close>

text \<open>The binary exponent of a positive rational: \<open>2 powi expo x \<le> x < 2 powi (expo x + 1)\<close>.\<close>

definition expo :: "rat \<Rightarrow> int" where
  "expo x =
     (case quotient_of x of (p, q) \<Rightarrow>
        let d = bitlen p - bitlen q in if 2 powi d \<le> x then d else d - 1)"

definition round_half_even :: "rat \<Rightarrow> int" where
  "round_half_even x =
     (let f = \<lfloor>x\<rfloor>; r = x - of_int f
      in if r < 1 / 2 then f else if 1 / 2 < r then f + 1 else if even f then f else f + 1)"

definition round_double :: "rat \<Rightarrow> rat" where
  "round_double x =
     (if x = 0 then 0
      else let u = 2 powi (expo \<bar>x\<bar> - 52)
           in sgn x * (of_int (round_half_even (\<bar>x\<bar> / u)) * u))"

text \<open>\<open>int(x)\<close> on a float truncates towards zero.\<close>

definition py_int :: "rat \<Rightarrow> int" where
  "py_int x = (if 0 \<le> x then \<lfloor>x\<rfloor> else \<lceil>x\<rceil>)"


section \<open>Signals, exceptions and the outside world\<close>

text \<open>
  An exception is modelled by the text \<open>str(e)\<close> that the handlers print.
\<close>

datatype exn = Exception string

fun str :: "exn \<Rightarrow> string" where
  "str (Exception s) = s"

text \<open>
  The log texts are f-strings over fixed (Russian) templates; each template is a
  constructor carrying the formatted values, in the order of the source:
  the "converting" line with the base name (line 36), the "original deleted" line with
  the base name (line 53), the success line with the output file name (line 55), the
  error line with the base name and \<open>str(e)\<close> (line 58), the closing summary with the
  success counter and the total (line 65), the critical-error line with \<open>str(e)\<close>
  (line 68).
\<close>

datatype message =
    Converting string
  | Deleted_original string
  | Success string
  | Error string string
  | Completed nat nat
  | Critical string

text \<open>The three \<open>pyqtSignal\<close>s of \<open>ConversionThread\<close>.\<close>

datatype signal = progress int | log_message message | finished_signal bool

type_synonym bytes = "nat list"
type_synonym rgb = "nat list"
type_synonym filesystem = "path \<rightharpoonup> bytes"

text \<open>
  \<open>rawpy\<close>, \<open>imageio\<close> and the operating system are not part of the repository. Their
  behaviour is a parameter: how file contents decode to a raster, how a raster encodes at
  a quality, and which paths the file system refuses to write, remove or create.
\<close>

record external =
  raw_decode :: "bytes \<Rightarrow> exn + rgb"
  jpg_encode :: "rgb \<Rightarrow> int \<Rightarrow> exn + bytes"
  write_error :: "path \<Rightarrow> exn option"
  remove_error :: "path \<Rightarrow> exn option"
  makedirs_error :: "path \<Rightarrow> exn option"

text \<open>\<open>with rawpy.imread(file_path) as raw: rgb = raw.postprocess()\<close>\<close>

definition rawpy_imread_postprocess :: "external \<Rightarrow> path \<Rightarrow> filesystem \<Rightarrow> exn + rgb" where
  "rawpy_imread_postprocess X file_path fs =
     (case fs file_path of
        None \<Rightarrow> Inl (Exception ''No such file or directory'')
      | Some b \<Rightarrow> raw_decode X b)"

text \<open>
  \<open>imageio.imsave(output_path, rgb, quality=q)\<close> encodes and then writes the file,
  replacing whatever the path held.
\<close>

definition imageio_imsave :: "external \<Rightarrow> path \<Rightarrow> rgb \<Rightarrow> int \<Rightarrow> filesystem \<Rightarrow> exn + filesystem" where
  "imageio_imsave X output_path raster q fs =
     (case jpg_encode X raster q of
        Inl e \<Rightarrow> Inl e
      | Inr b \<Rightarrow>
          (case write_error X output_path of
             Some e \<Rightarrow> Inl e
           | None \<Rightarrow> Inr (fs(output_path \<mapsto> b))))"

text \<open>\<open>os.remove(file_path)\<close>\<close>

definition os_remove :: "external \<Rightarrow> path \<Rightarrow> filesystem \<Rightarrow> exn + filesystem" where
  "os_remove X file_path fs =
     (case fs file_path of
        None \<Rightarrow> Inl (Exception ''No such file or directory'')
      | Some b \<Rightarrow>
          (case remove_error X file_path of
             Some e \<Rightarrow> Inl e
           | None \<Rightarrow> Inr (fs(file_path := None))))"


section \<open>\<open>ConversionThread\<close>\<close>

record ConversionThread =
  file_list :: "path list"
  output_dir :: path
  quality :: int
  delete_original :: bool
  is_running :: bool

text \<open>\<open>__init__\<close> stores its arguments and sets the flag; it checks nothing.\<close>

definition ConversionThread_init :: "path list \<Rightarrow> path \<Rightarrow> int \<Rightarrow> bool \<Rightarrow> ConversionThread" where
  "ConversionThread_init fl out q del =
     \<lparr>file_list = fl, output_dir = out, quality = q, delete_original = del,
      is_running = True\<rparr>"

definition stop :: "ConversionThread \<Rightarrow> ConversionThread" where
  "stop t = t\<lparr>is_running := False\<rparr>"

text \<open>
  What \<open>run\<close> reads and changes: the thread object, the files on disk, the local counter
  \<open>successful\<close> and the signals emitted so far, oldest first.
\<close>

record machine =
  self :: ConversionThread
  disk :: filesystem
  successful :: nat
  emitted :: "signal list"

definition emit :: "signal \<Rightarrow> machine \<Rightarrow> machine" where
  "emit s m = m\<lparr>emitted := emitted m @ [s]\<rparr>"

text \<open>
  The body of the inner \<open>try\<close> (lines 36 to 55) for one file. It returns the exception
  that left it, if any, and the machine as the statements executed so far have left it.
\<close>

definition try_body :: "external \<Rightarrow> path \<Rightarrow> machine \<Rightarrow> exn option \<times> machine" where
  "try_body X file_path m0 =
     (let m1 = emit (log_message (Converting (os_path_basename file_path))) m0
      in case rawpy_imread_postprocess X file_path (disk m1) of
           Inl e \<Rightarrow> (Some e, m1)
         | Inr raster \<Rightarrow>
             let output_filename = Path_stem file_path @ ''.jpg'';
                 output_path = os_path_join (output_dir (self m1)) output_filename
             in case imageio_imsave X output_path raster (quality (self m1)) (disk m1) of
                  Inl e \<Rightarrow> (Some e, m1)
                | Inr fs2 \<Rightarrow>
                    let m2 = m1\<lparr>disk := fs2, successful := successful m1 + 1\<rparr>
                    in if delete_original (self m2)
                       then (case os_remove X file_path (disk m2) of
                               Inl e \<Rightarrow> (Some e, m2)
                             | Inr fs3 \<Rightarrow>
                                 (None,
                                  emit (log_message (Success output_filename))
                                    (emit (log_message (Deleted_original (os_path_basename file_path)))
                                       (m2\<lparr>disk := fs3\<rparr>))))
                       else (None, emit (log_message (Success output_filename)) m2))"

text \<open>
  \<open>int((i + 1) / total_files * 100)\<close> (line 61); the division raises
  \<open>ZeroDivisionError\<close> on a zero total.
\<close>

definition percent :: "nat \<Rightarrow> nat \<Rightarrow> exn + int" where
  "percent i total_files =
     (if total_files = 0 then Inl (Exception ''division by zero'')
      else Inr (py_int (round_double (round_double (of_nat (i + 1) / of_nat total_files) * 100))))"

text \<open>
  One pass through the loop body after the flag test (lines 35 to 62): the inner
  \<open>try\<close> with its handler, then the progress signal. An exception of the percentage
  leaves the loop.
\<close>

definition iteration :: "external \<Rightarrow> nat \<Rightarrow> nat \<Rightarrow> path \<Rightarrow> machine \<Rightarrow> exn option \<times> machine" where
  "iteration X total_files i file_path m =
     (let (r, m1) = try_body X file_path m;
          m2 = (case r of
                  None \<Rightarrow> m1
                | Some e \<Rightarrow> emit (log_message (Error (os_path_basename file_path) (str e))) m1)
      in case percent i total_files of
           Inl e \<Rightarrow> (Some e, m2)
         | Inr p \<Rightarrow> (None, emit (progress p) m2))"

text \<open>
  The \<open>for\<close> loop over \<open>enumerate(self.file_list)\<close>. The controlling thread may call
  \<open>stop()\<close> at any moment; \<open>ctl i\<close> says that it has done so since the previous test of
  the flag and before the test that opens pass \<open>i\<close>. A cleared flag ends the loop
  (\<open>break\<close>).
\<close>

fun loop :: "external \<Rightarrow> (nat \<Rightarrow> bool) \<Rightarrow> nat \<Rightarrow> (nat \<times> path) list \<Rightarrow> machine \<Rightarrow> exn option \<times> machine" where
  "loop X ctl total_files [] m = (None, m)"
| "loop X ctl total_files ((i, file_path) # rest) m =
     (let m1 = (if ctl i then m\<lparr>self := stop (self m)\<rparr> else m)
      in if \<not> is_running (self m1) then (None, m1)
         else (case iteration X total_files i file_path m1 of
                 (Some e, m2) \<Rightarrow> (Some e, m2)
               | (None, m2) \<Rightarrow> loop X ctl total_files rest m2))"

text \<open>\<open>run\<close> (lines 26 to 69): the loop inside the outer \<open>try\<close>, and its two endings.\<close>

definition run :: "external \<Rightarrow> (nat \<Rightarrow> bool) \<Rightarrow> ConversionThread \<Rightarrow> filesystem \<Rightarrow> machine" where
  "run X ctl t fs =
     (let total_files = length (file_list t);
          m0 = \<lparr>self = t, disk = fs, successful = 0, emitted = []\<rparr>
      in case loop X ctl total_files (enumerate 0 (file_list t)) m0 of
           (None, m) \<Rightarrow>
             emit (log_message (Completed (successful m) total_files))
               (emit (finished_signal True) m)
         | (Some e, m) \<Rightarrow>
             emit (finished_signal False) (emit (log_message (Critical (str e))) m))"


section \<open>Reading the signals of a run\<close>

text \<open>
  The terminal events of an item are its success line and its error line; the source has
  no other per-item outcome.
\<close>

fun is_outcome :: "signal \<Rightarrow> bool" where
  "is_outcome (log_message (Success n)) = True"
| "is_outcome (log_message (Error n e)) = True"
| "is_outcome s = False"

definition outcomes :: "signal list \<Rightarrow> signal list" where
  "outcomes ss = filter is_outcome ss"

fun progress_values :: "signal list \<Rightarrow> int list" where
  "progress_values [] = []"
| "progress_values (progress p # ss) = p # progress_values ss"
| "progress_values (s # ss) = progress_values ss"

fun is_finished :: "signal \<Rightarrow> bool" where
  "is_finished (finished_signal b) = True"
| "is_finished s = False"

text \<open>The path that line 44 computes for a file under an output directory.\<close>

definition output_path_of :: "path \<Rightarrow> path \<Rightarrow> path" where
  "output_path_of out file_path = os_path_join out (Path_stem file_path @ ''.jpg'')"



section \<open>\<open>ORFConverterApp\<close>: what \<open>start_conversion\<close> reads\<close>

text \<open>
  A \<open>QSpinBox\<close> keeps its value between its bounds: \<open>setRange\<close> and \<open>setValue\<close> clamp
  (Qt's documented behaviour; a fresh spin box ranges over 0 to 99 and holds 0).
\<close>

record QSpinBox =
  minimum :: int
  maximum :: int
  spin_value :: int

definition QSpinBox_new :: QSpinBox where
  "QSpinBox_new = \<lparr>minimum = 0, maximum = 99, spin_value = 0\<rparr>"

definition setRange :: "int \<Rightarrow> int \<Rightarrow> QSpinBox \<Rightarrow> QSpinBox" where
  "setRange lo hi sb =
     (let hi' = max lo hi
      in \<lparr>minimum = lo, maximum = hi', spin_value = max lo (min hi' (spin_value sb))\<rparr>)"

definition setValue :: "int \<Rightarrow> QSpinBox \<Rightarrow> QSpinBox" where
  "setValue v sb = sb\<lparr>spin_value := max (minimum sb) (min (maximum sb) v)\<rparr>"

record ORFConverterApp =
  app_file_list :: "path list"
  output_folder :: "path option"
  quality_spinbox :: QSpinBox
  delete_original_checkbox :: bool

text \<open>\<open>__init__\<close> and \<open>init_ui\<close>: the fields that the conversion reads (lines 77, 125 to 127, 143, 195).\<close>

definition init_ui :: ORFConverterApp where
  "init_ui =
     \<lparr>app_file_list = [], output_folder = None,
      quality_spinbox = setValue 95 (setRange 1 100 QSpinBox_new),
      delete_original_checkbox = False\<rparr>"

text \<open>\<open>add_files\<close>, with the selection that the file dialog returned.\<close>

definition add_files :: "path list \<Rightarrow> ORFConverterApp \<Rightarrow> ORFConverterApp" where
  "add_files files app =
     (if files \<noteq> [] then app\<lparr>app_file_list := app_file_list app @ files\<rparr> else app)"

text \<open>\<open>add_folder\<close>, with the chosen folder and the files that \<open>rglob\<close> found in it.\<close>

definition add_folder :: "path \<Rightarrow> path list \<Rightarrow> ORFConverterApp \<Rightarrow> ORFConverterApp" where
  "add_folder folder orf_files app =
     (if folder \<noteq> [] \<and> orf_files \<noteq> []
      then app\<lparr>app_file_list := app_file_list app @ orf_files\<rparr> else app)"

definition choose_output_folder :: "path \<Rightarrow> ORFConverterApp \<Rightarrow> ORFConverterApp" where
  "choose_output_folder folder app =
     (if folder \<noteq> [] then app\<lparr>output_folder := Some folder\<rparr> else app)"

definition clear_list :: "ORFConverterApp \<Rightarrow> ORFConverterApp" where
  "clear_list app = app\<lparr>app_file_list := []\<rparr>"

text \<open>The user edits the quality, or ticks the check box.\<close>

definition edit_quality :: "int \<Rightarrow> ORFConverterApp \<Rightarrow> ORFConverterApp" where
  "edit_quality v app = app\<lparr>quality_spinbox := setValue v (quality_spinbox app)\<rparr>"

definition set_delete_original :: "bool \<Rightarrow> ORFConverterApp \<Rightarrow> ORFConverterApp" where
  "set_delete_original b app = app\<lparr>delete_original_checkbox := b\<rparr>"

text \<open>The states of the window that the user can bring about.\<close>

inductive reachable :: "ORFConverterApp \<Rightarrow> bool" where
  reach_init: "reachable init_ui"
| reach_add_files: "reachable app \<Longrightarrow> reachable (add_files files app)"
| reach_add_folder: "reachable app \<Longrightarrow> reachable (add_folder folder orf_files app)"
| reach_choose: "reachable app \<Longrightarrow> reachable (choose_output_folder folder app)"
| reach_clear: "reachable app \<Longrightarrow> reachable (clear_list app)"
| reach_quality: "reachable app \<Longrightarrow> reachable (edit_quality v app)"
| reach_delete: "reachable app \<Longrightarrow> reachable (set_delete_original b app)"

text \<open>
  \<open>start_conversion\<close> (lines 236 to 255) up to the construction of the thread: it warns
  and returns on an empty list; \<open>os.makedirs\<close> may raise; otherwise the thread is built.
\<close>

datatype start_result = Warning | Raised exn | Started ConversionThread

definition start_conversion :: "external \<Rightarrow> ORFConverterApp \<Rightarrow> start_result" where
  "start_conversion X app =
     (case app_file_list app of
        [] \<Rightarrow> Warning
      | first # others \<Rightarrow>
          (let chosen = (case output_folder app of
                           None \<Rightarrow> None
                         | Some folder \<Rightarrow> if folder \<noteq> [] then Some folder else None)
           in case (case chosen of
                      None \<Rightarrow> None
                    | Some out \<Rightarrow> makedirs_error X out) of
                Some e \<Rightarrow> Raised e
              | None \<Rightarrow>
                  Started
                    (ConversionThread_init (app_file_list app)
                       (case chosen of
                          Some out \<Rightarrow> out
                        | None \<Rightarrow> os_path_dirname first)
                       (spin_value (quality_spinbox app))
                       (delete_original_checkbox app))))"

text \<open>The signals and the disk after the conversion that \<open>start_conversion\<close> starts, if any.\<close>

definition conversion :: "external \<Rightarrow> (nat \<Rightarrow> bool) \<Rightarrow> ORFConverterApp \<Rightarrow> filesystem \<Rightarrow> signal list \<times> filesystem" where
  "conversion X ctl app fs =
     (case start_conversion X app of
        Started t \<Rightarrow> (emitted (run X ctl t fs), disk (run X ctl t fs))
      | Warning \<Rightarrow> ([], fs)
      | Raised e \<Rightarrow> ([], fs))"


section \<open>A small world for concrete runs\<close>

text \<open>
  A decoder that rejects empty files, an encoder that puts the quality in front of the
  raster, one output path that cannot be written and one source that cannot be removed.
\<close>

definition demo_external :: external where
  "demo_external =
     \<lparr>raw_decode = (\<lambda>b. if b = [] then Inl (Exception ''data corrupted'') else Inr b),
      jpg_encode = (\<lambda>r q. Inr (nat q # r)),
      write_error = (\<lambda>p. if p = ''/out/locked.jpg'' then Some (Exception ''Permission denied'') else None),
      remove_error = (\<lambda>p. if p = ''/in/keep.orf'' then Some (Exception ''Permission denied'') else None),
      makedirs_error = (\<lambda>p. None)\<rparr>"

definition demo_disk :: filesystem where
  "demo_disk =
     [''/in/A.orf'' \<mapsto> [1, 2, 3], ''/in/B.orf'' \<mapsto> [], ''/in/keep.orf'' \<mapsto> [7],
      ''/in/locked.orf'' \<mapsto> [8], ''/other/C.orf'' \<mapsto> [4, 5], ''/other/A.orf'' \<mapsto> [9]]"



text \<open>The machine on which \<open>run\<close> starts a thread, over the demo disk.\<close>

definition demo_machine :: "ConversionThread \<Rightarrow> machine" where
  "demo_machine t = \<lparr>self = t, disk = demo_disk, successful = 0, emitted = []\<rparr>"


section \<open>Rounding is monotone\<close>

lemma bitlen_powi:
  assumes "0 < (p::int)"
  shows "(2::rat) powi (bitlen p - 1) \<le> of_int p" "of_int p < (2::rat) powi (bitlen p)"
proof -
  from bitlen_bounds [OF assms]
  have lo: "2 ^ nat (bitlen p - 1) \<le> p" and hi: "p < 2 ^ nat (bitlen p)" by simp_all
  have b1: "1 \<le> bitlen p"
  proof (rule ccontr)
    assume "\<not> 1 \<le> bitlen p"
    then have "nat (bitlen p) = 0" by simp
    with hi assms show False by simp
  qed
  have "(of_int (2 ^ nat (bitlen p - 1)) :: rat) \<le> of_int p"
    using lo by (simp only: of_int_le_iff)
  then show "(2::rat) powi (bitlen p - 1) \<le> of_int p"
    using b1 by (simp add: power_int_nonneg_exp)
  have "(of_int p :: rat) < of_int (2 ^ nat (bitlen p))"
    using hi by (simp only: of_int_less_iff)
  then show "of_int p < (2::rat) powi (bitlen p)"
    using b1 by (simp add: power_int_nonneg_exp)
qed

lemma expo_rough:
  assumes "0 < x"
  obtains d where "expo x = (if 2 powi d \<le> x then d else d - 1)"
    "2 powi (d - 1) \<le> x" "x < 2 powi (d + 1)"
proof -
  obtain p q where pq: "quotient_of x = (p, q)" by (cases "quotient_of x")
  have q: "0 < q" using quotient_of_denom_pos [OF pq] .
  have x: "x = of_int p / of_int q" using quotient_of_div [OF pq] .
  have p: "0 < p" using assms q by (simp add: x zero_less_divide_iff)
  define d where "d = bitlen p - bitlen q"
  have qr: "(0::rat) < of_int q" using q by simp
  have e: "expo x = (if 2 powi d \<le> x then d else d - 1)"
    by (simp add: expo_def pq d_def Let_def)
  have "2 powi (d - 1) * of_int q \<le> (2::rat) powi (d - 1) * 2 powi (bitlen q)"
    using bitlen_powi(2) [OF q] by (intro mult_left_mono) simp_all
  also have "\<dots> = 2 powi (bitlen p - 1)"
    by (simp add: d_def power_int_add [symmetric])
  also have "\<dots> \<le> of_int p" using bitlen_powi(1) [OF p] .
  finally have lo: "2 powi (d - 1) \<le> x" using qr by (simp add: x pos_le_divide_eq)
  have "of_int p < (2::rat) powi (bitlen p)" using bitlen_powi(2) [OF p] .
  also have "\<dots> = 2 powi (d + 1) * 2 powi (bitlen q - 1)"
    by (simp add: d_def power_int_add [symmetric])
  also have "\<dots> \<le> 2 powi (d + 1) * of_int q"
    using bitlen_powi(1) [OF q] by (intro mult_left_mono) simp_all
  finally have hi: "x < 2 powi (d + 1)" using qr by (simp add: x pos_divide_less_eq)
  from e lo hi that show thesis by blast
qed

lemma expo_bounds:
  assumes "0 < x"
  shows "2 powi (expo x) \<le> x \<and> x < 2 powi (expo x + 1)"
proof -
  from expo_rough [OF assms] obtain d where
    e: "expo x = (if 2 powi d \<le> x then d else d - 1)"
    and lo: "2 powi (d - 1) \<le> x" and hi: "x < 2 powi (d + 1)" by blast
  show ?thesis using e lo hi by (cases "2 powi d \<le> x") simp_all
qed

lemma round_half_even_of_int: "round_half_even (of_int n) = n"
  by (simp add: round_half_even_def)

lemma round_half_even_range: "\<lfloor>x\<rfloor> \<le> round_half_even x \<and> round_half_even x \<le> \<lfloor>x\<rfloor> + 1"
  by (simp add: round_half_even_def Let_def)

lemma round_half_even_mono:
  assumes "x \<le> y"
  shows "round_half_even x \<le> round_half_even y"
proof (cases "\<lfloor>x\<rfloor> = \<lfloor>y\<rfloor>")
  case True
  with assms show ?thesis
    by (auto simp add: round_half_even_def Let_def)
next
  case False
  with assms have "\<lfloor>x\<rfloor> < \<lfloor>y\<rfloor>" using floor_mono [OF assms] by linarith
  with round_half_even_range [of x] round_half_even_range [of y] show ?thesis by linarith
qed

lemma scaled_mantissa:
  assumes "0 < x"
  shows "2 ^ 52 \<le> x / 2 powi (expo x - 52) \<and> x / 2 powi (expo x - 52) < 2 ^ 53"
proof -
  have u: "(0::rat) < 2 powi (expo x - 52)" by simp
  have a: "(2::rat) ^ 52 * 2 powi (expo x - 52) = 2 powi (expo x)"
    using power_int_add [of "2::rat" 52 "expo x - 52"] by simp
  have b: "(2::rat) ^ 53 * 2 powi (expo x - 52) = 2 powi (expo x + 1)"
    using power_int_add [of "2::rat" 53 "expo x - 52"] by (simp add: add.commute)
  from expo_bounds [OF assms] a b show ?thesis
    using u by (simp only: pos_le_divide_eq pos_divide_less_eq)
qed

lemma round_double_pos:
  assumes "0 < x"
  shows "round_double x = of_int (round_half_even (x / 2 powi (expo x - 52))) * 2 powi (expo x - 52)"
  using assms by (simp add: round_double_def Let_def)

lemma round_double_binade:
  assumes "0 < x"
  shows "2 powi (expo x) \<le> round_double x \<and> round_double x \<le> 2 powi (expo x + 1)"
proof -
  let ?u = "(2::rat) powi (expo x - 52)"
  let ?m = "round_half_even (x / ?u)"
  have u: "0 < ?u" by simp
  from scaled_mantissa [OF assms]
  have lo: "of_int (2 ^ 52) \<le> x / ?u" and hi: "x / ?u \<le> of_int (2 ^ 53)" by simp_all
  have "round_half_even (of_int (2 ^ 52)) \<le> ?m" using lo by (rule round_half_even_mono)
  then have mlo: "2 ^ 52 \<le> ?m" by (simp only: round_half_even_of_int)
  have "?m \<le> round_half_even (of_int (2 ^ 53))" using hi by (rule round_half_even_mono)
  then have mhi: "?m \<le> 2 ^ 53" by (simp only: round_half_even_of_int)
  have a: "(2::rat) ^ 52 * ?u = 2 powi (expo x)"
    using power_int_add [of "2::rat" 52 "expo x - 52"] by simp
  have b: "(2::rat) ^ 53 * ?u = 2 powi (expo x + 1)"
    using power_int_add [of "2::rat" 53 "expo x - 52"] by (simp add: add.commute)
  have "(2::rat) ^ 52 \<le> of_int ?m" using mlo by (metis of_int_le_iff of_int_numeral of_int_power)
  then have "(2::rat) ^ 52 * ?u \<le> of_int ?m * ?u" using u by (intro mult_right_mono) simp_all
  then have 1: "2 powi (expo x) \<le> round_double x"
    by (simp only: a round_double_pos [OF assms])
  have "(of_int ?m :: rat) \<le> 2 ^ 53" using mhi by (metis of_int_le_iff of_int_numeral of_int_power)
  then have "of_int ?m * ?u \<le> (2::rat) ^ 53 * ?u" using u by (intro mult_right_mono) simp_all
  then have 2: "round_double x \<le> 2 powi (expo x + 1)"
    by (simp only: b round_double_pos [OF assms])
  from 1 2 show ?thesis ..
qed

lemma round_double_positive: "0 < x \<Longrightarrow> 0 < round_double x"
  using round_double_binade [of x] zero_less_power_int [of "2::rat" "expo x"] by linarith


lemma round_double_1: "round_double 1 = 1"
  by code_simp

lemma round_double_100: "round_double 100 = 100"
  by code_simp

lemma percent_defined:
  "0 < n \<Longrightarrow> percent i n = Inr (\<lfloor>round_double (round_double (of_nat (i + 1) / of_nat n) * 100)\<rfloor>)"
proof -
  assume n: "0 < n"
  have "(0::rat) < of_nat (i + 1) / of_nat n" using n by simp
  then have "0 < round_double (of_nat (i + 1) / of_nat n) * 100"
    using round_double_positive by simp
  then have "0 < round_double (round_double (of_nat (i + 1) / of_nat n) * 100)"
    by (rule round_double_positive)
  then show ?thesis using n by (simp add: percent_def py_int_def)
qed



lemma percent_last: "0 < n \<Longrightarrow> percent (n - 1) n = Inr 100"
  by (simp add: percent_defined round_double_1 round_double_100)

lemma percent_0_1: "percent 0 1 = Inr 100"
  using percent_last [of 1] by simp

lemma percent_0_2: "percent 0 2 = Inr 50"
  by code_simp


lemma percent_28_100: "percent 28 100 = Inr 28"
  by code_simp


section \<open>The loop, pass by pass\<close>


lemma try_body_self: "self (snd (try_body X fp m)) = self m"
  by (simp add: try_body_def emit_def Let_def split: sum.splits option.splits)

lemma iteration_self: "self (snd (iteration X n i fp m)) = self m"
proof -
  obtain r m1 where tb: "try_body X fp m = (r, m1)" by (cases "try_body X fp m")
  with try_body_self [of X fp m] have "self m1 = self m" by simp
  with tb show ?thesis
    by (simp add: iteration_def emit_def split: sum.splits option.splits)
qed

lemma iteration_no_exn: "0 < n \<Longrightarrow> fst (iteration X n i fp m) = None"
  by (simp add: iteration_def percent_def split: prod.splits sum.splits option.splits)

lemma loop_Cons:
  "loop X ctl n ((i, fp) # rest) m =
     (if ctl i then (None, m\<lparr>self := stop (self m)\<rparr>)
      else if \<not> is_running (self m) then (None, m)
      else (case iteration X n i fp m of
              (Some e, m2) \<Rightarrow> (Some e, m2)
            | (None, m2) \<Rightarrow> loop X ctl n rest m2))"
  by (simp add: stop_def)

declare loop.simps(2) [simp del]

lemma loop_step:
  assumes "0 < n" "\<not> ctl i" "is_running (self m)"
  shows "loop X ctl n ((i, fp) # rest) m = loop X ctl n rest (snd (iteration X n i fp m))"
proof -
  obtain r m2 where it: "iteration X n i fp m = (r, m2)" by (cases "iteration X n i fp m")
  with iteration_no_exn [OF assms(1), of X i fp m] have "r = None" by simp
  with it assms show ?thesis by (simp add: loop_Cons)
qed

lemma loop_no_exn: "0 < n \<Longrightarrow> fst (loop X ctl n ps m) = None"
proof (induction ps arbitrary: m)
  case Nil
  then show ?case by simp
next
  case (Cons a ps)
  obtain i fp where a: "a = (i, fp)" by (cases a)
  show ?case
  proof (cases "ctl i \<or> \<not> is_running (self m)")
    case True
    then show ?thesis by (auto simp add: a loop_Cons)
  next
    case False
    then have "loop X ctl n (a # ps) m = loop X ctl n ps (snd (iteration X n i fp m))"
      using loop_step [OF Cons.prems, of ctl i m X fp ps] by (simp add: a)
    then show ?thesis using Cons by simp
  qed
qed

lemma outcomes_append: "outcomes (xs @ ys) = outcomes xs @ outcomes ys"
  by (simp add: outcomes_def)

lemma progress_values_append:
  "progress_values (xs @ ys) = progress_values xs @ progress_values ys"
  by (induction xs rule: progress_values.induct) simp_all

lemma try_body_emitted:
  "\<exists>ss. emitted (snd (try_body X fp m)) = emitted m @ log_message (Converting (os_path_basename fp)) # ss
      \<and> progress_values ss = [] \<and> \<not> list_ex is_finished ss
      \<and> length (outcomes ss) = (case fst (try_body X fp m) of None \<Rightarrow> 1 | Some e \<Rightarrow> 0)"
  by (simp add: try_body_def emit_def Let_def outcomes_def split: sum.splits option.splits)

lemma iteration_emitted:
  assumes "percent i n = Inr p"
  shows "\<exists>ss. emitted (snd (iteration X n i fp m)) = emitted m @ ss
      \<and> progress_values ss = [p] \<and> \<not> list_ex is_finished ss \<and> length (outcomes ss) = 1"
proof -
  obtain r m1 where tb: "try_body X fp m = (r, m1)" by (cases "try_body X fp m")
  from try_body_emitted [of X fp m] tb obtain ss where
    ss: "emitted m1 = emitted m @ log_message (Converting (os_path_basename fp)) # ss"
      "progress_values ss = []" "\<not> list_ex is_finished ss"
      "length (outcomes ss) = (case r of None \<Rightarrow> 1 | Some e \<Rightarrow> 0)" by auto
  show ?thesis
  proof (cases r)
    case None
    with tb ss assms show ?thesis
      by (simp add: iteration_def emit_def outcomes_def progress_values_append)
  next
    case (Some e)
    with tb ss assms show ?thesis
      by (simp add: iteration_def emit_def outcomes_def progress_values_append)
  qed
qed




section \<open>The end of a run\<close>

text \<open>What a loop over \<open>ps\<close> appends to the signals: one outcome and one percentage per pass.\<close>

lemma loop_emitted:
  assumes "0 < n"
  shows "\<exists>k ss. k \<le> length ps \<and> emitted (snd (loop X ctl n ps m)) = emitted m @ ss
      \<and> length (outcomes ss) = k \<and> \<not> list_ex is_finished ss
      \<and> map Inr (progress_values ss) = map (\<lambda>a. percent (fst a) n) (take k ps)
      \<and> (is_running (self m) \<and> (\<forall>a\<in>set ps. \<not> ctl (fst a)) \<longrightarrow> k = length ps)"
proof (induction ps arbitrary: m)
  case Nil
  then show ?case by (simp add: outcomes_def)
next
  case (Cons a ps)
  obtain i fp where a: "a = (i, fp)" by (cases a)
  show ?case
  proof (cases "ctl i \<or> \<not> is_running (self m)")
    case True
    then have "emitted (snd (loop X ctl n (a # ps) m)) = emitted m"
      by (auto simp add: a loop_Cons)
    then show ?thesis using True
      by (intro exI [of _ 0] exI [of _ "[]"]) (auto simp add: a outcomes_def)
  next
    case False
    let ?m1 = "snd (iteration X n i fp m)"
    obtain p where p: "percent i n = Inr p" using assms by (simp add: percent_def)
    from iteration_emitted [OF p, of X fp m] obtain s1 where
      s1: "emitted ?m1 = emitted m @ s1" "progress_values s1 = [p]"
        "\<not> list_ex is_finished s1" "length (outcomes s1) = 1" by blast
    from Cons.IH [of ?m1] obtain k s2 where
      s2: "k \<le> length ps" "emitted (snd (loop X ctl n ps ?m1)) = emitted ?m1 @ s2"
        "length (outcomes s2) = k" "\<not> list_ex is_finished s2"
        "map Inr (progress_values s2) = map (\<lambda>a. percent (fst a) n) (take k ps)"
        "is_running (self ?m1) \<and> (\<forall>a\<in>set ps. \<not> ctl (fst a)) \<longrightarrow> k = length ps" by blast
    have step: "loop X ctl n (a # ps) m = loop X ctl n ps ?m1"
      using False loop_step [OF assms, of ctl i m X fp ps] by (simp add: a)
    have "Suc k \<le> length (a # ps)" using s2(1) by simp
    moreover have "emitted (snd (loop X ctl n (a # ps) m)) = emitted m @ (s1 @ s2)"
      using step s1(1) s2(2) by simp
    moreover have "length (outcomes (s1 @ s2)) = Suc k"
      using s1(4) s2(3) by (simp add: outcomes_append)
    moreover have "\<not> list_ex is_finished (s1 @ s2)" using s1(3) s2(4) by simp
    moreover have "map Inr (progress_values (s1 @ s2)) = map (\<lambda>a. percent (fst a) n) (take (Suc k) (a # ps))"
      using s1(2) s2(5) p by (simp add: progress_values_append a)
    moreover have "is_running (self m) \<and> (\<forall>b\<in>set (a # ps). \<not> ctl (fst b)) \<longrightarrow> Suc k = length (a # ps)"
      using s2(6) by (simp add: iteration_self)
    ultimately show ?thesis by blast
  qed
qed










section \<open>Progress\<close>





section \<open>Cancellation\<close>






section \<open>A failing item does not stop the batch\<close>

lemma iteration_failed:
  assumes "percent i n = Inr p"
    and "rawpy_imread_postprocess X fp (disk m) = Inl e
       \<or> (\<exists>raster. rawpy_imread_postprocess X fp (disk m) = Inr raster
            \<and> imageio_imsave X (output_path_of (output_dir (self m)) fp) raster
                  (quality (self m)) (disk m) = Inl e)"
  shows "iteration X n i fp m =
     (None, m\<lparr>emitted := emitted m @
        [log_message (Converting (os_path_basename fp)),
         log_message (Error (os_path_basename fp) (str e)), progress p]\<rparr>)"
  using assms
  by (auto simp add: iteration_def try_body_def emit_def output_path_of_def Let_def)

lemma iteration_starts:
  assumes "0 < n"
  shows "\<exists>tail. emitted (snd (iteration X n i fp m))
           = emitted m @ log_message (Converting (os_path_basename fp)) # tail"
proof -
  obtain r m1 where tb: "try_body X fp m = (r, m1)" by (cases "try_body X fp m")
  from try_body_emitted [of X fp m] tb obtain ss where
    "emitted m1 = emitted m @ log_message (Converting (os_path_basename fp)) # ss" by auto
  with tb assms show ?thesis
    by (cases r) (simp_all add: iteration_def emit_def percent_def)
qed

lemma loop_extends:
  assumes "0 < n"
  shows "\<exists>tail. emitted (snd (loop X ctl n ps m)) = emitted m @ tail"
  using loop_emitted [OF assms, of ps X ctl m] by blast

text \<open>
  C4. When decoding the file fails (\<open>rawpy\<close> raises), or decoding succeeds and saving
  fails (\<open>imageio.imsave\<close> raises while encoding or writing), the pass of that item
  emits its "converting" line, exactly one error line and the percentage, and changes
  nothing else; no exception leaves the loop; the loop goes on with the remaining items
  from that machine, and unless the controller stops the thread the next item starts
  (its "converting" line comes next).
\<close>

theorem failure_is_isolated:
  assumes "0 < n" "is_running (self m)" "\<not> ctl i"
    and "rawpy_imread_postprocess X fp (disk m) = Inl e
       \<or> (\<exists>raster. rawpy_imread_postprocess X fp (disk m) = Inr raster
            \<and> imageio_imsave X (output_path_of (output_dir (self m)) fp) raster
                  (quality (self m)) (disk m) = Inl e)"
  shows "\<exists>p. percent i n = Inr p
      \<and> loop X ctl n ((i, fp) # rest) m
          = loop X ctl n rest
              (m\<lparr>emitted := emitted m @
                 [log_message (Converting (os_path_basename fp)),
                  log_message (Error (os_path_basename fp) (str e)), progress p]\<rparr>)
      \<and> fst (loop X ctl n ((i, fp) # rest) m) = None
      \<and> (\<forall>i' fp' rest'. rest = (i', fp') # rest' \<and> \<not> ctl i' \<longrightarrow>
            (\<exists>tail. emitted (snd (loop X ctl n ((i, fp) # rest) m))
               = emitted m @
                 [log_message (Converting (os_path_basename fp)),
                  log_message (Error (os_path_basename fp) (str e)), progress p,
                  log_message (Converting (os_path_basename fp'))] @ tail))"
proof -
  obtain p where p: "percent i n = Inr p" using assms(1) by (simp add: percent_def)
  let ?after = "m\<lparr>emitted := emitted m @
        [log_message (Converting (os_path_basename fp)),
         log_message (Error (os_path_basename fp) (str e)), progress p]\<rparr>"
  have it: "iteration X n i fp m = (None, ?after)" using p assms(4) by (rule iteration_failed)
  have step: "loop X ctl n ((i, fp) # rest) m = loop X ctl n rest ?after"
    using assms(2,3) it by (simp add: loop_Cons)
  have noexn: "fst (loop X ctl n ((i, fp) # rest) m) = None" using assms(1) by (rule loop_no_exn)
  have next_starts: "\<exists>tail. emitted (snd (loop X ctl n ((i, fp) # rest) m))
               = emitted m @
                 [log_message (Converting (os_path_basename fp)),
                  log_message (Error (os_path_basename fp) (str e)), progress p,
                  log_message (Converting (os_path_basename fp'))] @ tail"
    if r: "rest = (i', fp') # rest'" and c: "\<not> ctl i'" for i' fp' rest'
  proof -
    let ?second = "snd (iteration X n i' fp' ?after)"
    have run2: "is_running (self ?after)" using assms(2) by simp
    have "loop X ctl n rest ?after = loop X ctl n rest' ?second"
      using loop_step [where n = n and ctl = ctl and i = i' and m = ?after and X = X
          and fp = fp' and rest = rest'] assms(1) c run2
      by (simp add: r)
    moreover obtain t1 where "emitted ?second
        = emitted ?after @ log_message (Converting (os_path_basename fp')) # t1"
      using iteration_starts [OF assms(1), of X i' fp' ?after] by blast
    moreover obtain t2 where "emitted (snd (loop X ctl n rest' ?second)) = emitted ?second @ t2"
      using loop_extends [OF assms(1), of X ctl rest' ?second] by blast
    ultimately show ?thesis using step by simp
  qed
  from p step noexn next_starts show ?thesis by blast
qed

theorem failure_is_isolated_witness:
  "is_running (self (demo_machine (ConversionThread_init [''/in/B.orf'', ''/in/A.orf''] ''/out'' 90 False)))
   \<and> rawpy_imread_postprocess demo_external ''/in/B.orf''
        (disk (demo_machine (ConversionThread_init [''/in/B.orf'', ''/in/A.orf''] ''/out'' 90 False)))
       = Inl (Exception ''data corrupted'')
   \<and> emitted (snd (loop demo_external (\<lambda>i. False) 2 [(0, ''/in/B.orf''), (1, ''/in/A.orf'')]
        (demo_machine (ConversionThread_init [''/in/B.orf'', ''/in/A.orf''] ''/out'' 90 False))))
       = [log_message (Converting ''B.orf''), log_message (Error ''B.orf'' ''data corrupted''),
          progress 50, log_message (Converting ''A.orf''), log_message (Success ''A.jpg''),
          progress 100]"
proof -
  let ?M = "demo_machine (ConversionThread_init [''/in/B.orf'', ''/in/A.orf''] ''/out'' 90 False)"
  have h1: "0 < (2::nat)" by simp
  have h2: "is_running (self ?M)" by (simp add: demo_machine_def ConversionThread_init_def)
  have h3: "\<not> (\<lambda>i::nat. False) 0" by simp
  have dec: "rawpy_imread_postprocess demo_external ''/in/B.orf'' (disk ?M)
      = Inl (Exception ''data corrupted'')"
    by (simp add: rawpy_imread_postprocess_def demo_machine_def demo_disk_def demo_external_def)
  then have h4: "rawpy_imread_postprocess demo_external ''/in/B.orf'' (disk ?M)
        = Inl (Exception ''data corrupted'')
     \<or> (\<exists>raster. rawpy_imread_postprocess demo_external ''/in/B.orf'' (disk ?M) = Inr raster
          \<and> imageio_imsave demo_external (output_path_of (output_dir (self ?M)) ''/in/B.orf'') raster
               (quality (self ?M)) (disk ?M) = Inl (Exception ''data corrupted''))" ..
  from failure_is_isolated [OF h1 h2 h3 h4, where rest = "[(1, ''/in/A.orf'')]"]
  obtain p where p: "percent 0 2 = Inr p"
    and step: "loop demo_external (\<lambda>i. False) 2 [(0, ''/in/B.orf''), (1, ''/in/A.orf'')] ?M
      = loop demo_external (\<lambda>i. False) 2 [(1, ''/in/A.orf'')]
          (?M\<lparr>emitted := emitted ?M @
             [log_message (Converting (os_path_basename ''/in/B.orf'')),
              log_message (Error (os_path_basename ''/in/B.orf'') (str (Exception ''data corrupted''))),
              progress p]\<rparr>)"
    by blast
  from p have p50: "p = 50" by (simp add: percent_0_2)
  have rest: "emitted (snd (loop demo_external (\<lambda>i. False) 2 [(1, ''/in/A.orf'')]
          (?M\<lparr>emitted := emitted ?M @
             [log_message (Converting (os_path_basename ''/in/B.orf'')),
              log_message (Error (os_path_basename ''/in/B.orf'') (str (Exception ''data corrupted''))),
              progress 50]\<rparr>)))
       = [log_message (Converting ''B.orf''), log_message (Error ''B.orf'' ''data corrupted''),
          progress 50, log_message (Converting ''A.orf''), log_message (Success ''A.jpg''),
          progress 100]"
    by code_simp
  from h2 dec step p50 rest show ?thesis by simp
qed


section \<open>Deleting the originals\<close>

lemma try_body_disk:
  assumes "p \<in> dom (disk m)" "p \<notin> dom (disk (snd (try_body X fp m)))"
  shows "p = fp \<and> delete_original (self m)
       \<and> (\<exists>raster fs2. rawpy_imread_postprocess X fp (disk m) = Inr raster
             \<and> imageio_imsave X (output_path_of (output_dir (self m)) fp) raster
                   (quality (self m)) (disk m) = Inr fs2
             \<and> os_remove X fp fs2 = Inr (disk (snd (try_body X fp m))))"
  using assms
  by (auto simp add: try_body_def emit_def output_path_of_def Let_def imageio_imsave_def
        os_remove_def split: sum.splits option.splits if_splits)

lemma iteration_disk_eq: "disk (snd (iteration X n i fp m)) = disk (snd (try_body X fp m))"
  by (simp add: iteration_def emit_def split: prod.splits option.splits sum.splits)

lemma loop_disk:
  assumes "p \<in> dom (disk m)" "p \<notin> dom (disk (snd (loop X ctl n ps m)))"
  shows "delete_original (self m) \<and> p \<in> snd ` set ps"
  using assms
proof (induction ps arbitrary: m)
  case Nil
  then show ?case by simp
next
  case (Cons a ps)
  obtain i fp where a: "a = (i, fp)" by (cases a)
  obtain r m2 where it: "iteration X n i fp m = (r, m2)" by (cases "iteration X n i fp m")
  have d2: "disk m2 = disk (snd (try_body X fp m))" using it iteration_disk_eq [of X n i fp m] by simp
  have s2: "self m2 = self m" using it iteration_self [of X n i fp m] by simp
  show ?case
  proof (cases "p \<in> dom (disk m2)")
    case False
    with Cons.prems(1) d2 try_body_disk [of p m X fp] show ?thesis by (simp add: a)
  next
    case True
    show ?thesis
    proof (cases "ctl i \<or> \<not> is_running (self m) \<or> r \<noteq> None")
      case stopped: True
      then have "disk (snd (loop X ctl n (a # ps) m)) = disk m \<or> disk (snd (loop X ctl n (a # ps) m)) = disk m2"
        using it by (auto simp add: a loop_Cons)
      with Cons.prems True show ?thesis by auto
    next
      case False
      then have "loop X ctl n (a # ps) m = loop X ctl n ps m2" using it by (simp add: a loop_Cons)
      with Cons.IH [OF True] Cons.prems(2) s2 show ?thesis by (simp add: a)
    qed
  qed
qed

lemma run_disk:
  "disk (run X ctl t fs)
     = disk (snd (loop X ctl (length (file_list t)) (enumerate 0 (file_list t))
                    \<lparr>self = t, disk = fs, successful = 0, emitted = []\<rparr>))"
  by (simp add: run_def emit_def Let_def split: prod.splits option.splits)

text \<open>
  C7. A pass of the loop removes no file but its own source, and only with
  \<open>delete_original\<close> set, after \<open>rawpy\<close> has decoded the file and \<open>imsave\<close> has
  written the output: \<open>os.remove\<close> acts on the disk that \<open>imsave\<close> returned. Over a
  whole run, a file that was on disk before and is gone afterwards is one of the files of
  the list, and \<open>delete_original\<close> was set; without it no file ever disappears.
\<close>

theorem delete_only_after_write:
  "(\<forall>p. p \<in> dom (disk m) \<and> p \<notin> dom (disk (snd (iteration X n i fp m))) \<longrightarrow>
       p = fp \<and> delete_original (self m)
     \<and> (\<exists>raster fs2. rawpy_imread_postprocess X fp (disk m) = Inr raster
           \<and> imageio_imsave X (output_path_of (output_dir (self m)) fp) raster
                 (quality (self m)) (disk m) = Inr fs2
           \<and> os_remove X fp fs2 = Inr (disk (snd (iteration X n i fp m)))))
   \<and> (\<forall>p. p \<in> dom fs \<and> p \<notin> dom (disk (run X ctl t fs)) \<longrightarrow>
          delete_original t \<and> p \<in> set (file_list t))"
proof (intro conjI allI impI)
  fix p assume h: "p \<in> dom (disk m) \<and> p \<notin> dom (disk (snd (iteration X n i fp m)))"
  from h have a1: "p \<in> dom (disk m)" ..
  from h have "p \<notin> dom (disk (snd (iteration X n i fp m)))" ..
  then have a2: "p \<notin> dom (disk (snd (try_body X fp m)))" by (simp add: iteration_disk_eq)
  from try_body_disk [OF a1 a2]
  show "p = fp" and "delete_original (self m)"
    and "\<exists>raster fs2. rawpy_imread_postprocess X fp (disk m) = Inr raster
           \<and> imageio_imsave X (output_path_of (output_dir (self m)) fp) raster
                 (quality (self m)) (disk m) = Inr fs2
           \<and> os_remove X fp fs2 = Inr (disk (snd (iteration X n i fp m)))"
    by (simp_all add: iteration_disk_eq)
next
  fix p assume h: "p \<in> dom fs \<and> p \<notin> dom (disk (run X ctl t fs))"
  let ?start = "\<lparr>self = t, disk = fs, successful = 0, emitted = []\<rparr>"
  from h have "p \<in> dom (disk ?start)" by simp
  moreover from h have "p \<notin> dom (disk (snd (loop X ctl (length (file_list t)) (enumerate 0 (file_list t)) ?start)))"
    by (simp add: run_disk)
  ultimately have "delete_original (self ?start) \<and> p \<in> snd ` set (enumerate 0 (file_list t))"
    by (rule loop_disk)
  moreover have "snd ` set (enumerate 0 (file_list t)) = set (file_list t)"
    using map_snd_enumerate [of 0 "file_list t"] by (metis set_map)
  ultimately show "delete_original t" and "p \<in> set (file_list t)" by simp_all
qed

theorem delete_only_after_write_witness:
  "''/in/A.orf'' \<in> dom demo_disk
   \<and> ''/in/A.orf'' \<notin> dom (disk (run demo_external (\<lambda>i. False)
        (ConversionThread_init [''/in/A.orf''] ''/out'' 90 True) demo_disk))
   \<and> delete_original (ConversionThread_init [''/in/A.orf''] ''/out'' 90 True)
   \<and> ''/in/A.orf'' \<in> set (file_list (ConversionThread_init [''/in/A.orf''] ''/out'' 90 True))"
proof -
  let ?T = "ConversionThread_init [''/in/A.orf''] ''/out'' 90 True"
  have a: "''/in/A.orf'' \<in> dom demo_disk" by (simp add: demo_disk_def)
  have "disk (run demo_external (\<lambda>i. False) ?T demo_disk) ''/in/A.orf'' = None" by code_simp
  then have b: "''/in/A.orf'' \<notin> dom (disk (run demo_external (\<lambda>i. False) ?T demo_disk))"
    by (simp add: domIff)
  from delete_only_after_write [where fs = demo_disk and t = ?T and X = demo_external
      and ctl = "\<lambda>i. False"] a b
  show ?thesis by blast
qed


section \<open>Output names\<close>















section \<open>Construction and its guards\<close>

lemma reachable_quality:
  "reachable app \<Longrightarrow>
     minimum (quality_spinbox app) = 1 \<and> maximum (quality_spinbox app) = 100
     \<and> 1 \<le> spin_value (quality_spinbox app) \<and> spin_value (quality_spinbox app) \<le> 100"
  by (induction rule: reachable.induct)
    (auto simp add: init_ui_def setValue_def setRange_def QSpinBox_new_def add_files_def
       add_folder_def choose_output_folder_def clear_list_def edit_quality_def
       set_delete_original_def)

text \<open>
  C6 (as the code has it). \<open>ConversionThread.__init__\<close> checks nothing. The checks are in
  the window: with an empty list \<open>start_conversion\<close> warns, builds no thread and so no
  signal is emitted; the thread it builds otherwise has the list of the window, which is
  not empty, and the value of the spin box as its quality, which the spin box keeps
  between 1 and 100.
\<close>

theorem start_conversion_guards:
  assumes "reachable app"
  shows "(app_file_list app = [] \<longrightarrow>
            start_conversion X app = Warning \<and> conversion X ctl app fs = ([], fs))
       \<and> (\<forall>t. start_conversion X app = Started t \<longrightarrow>
            file_list t = app_file_list app \<and> file_list t \<noteq> []
          \<and> 1 \<le> quality t \<and> quality t \<le> 100 \<and> is_running t)"
proof (intro conjI allI impI)
  assume "app_file_list app = []"
  then show "start_conversion X app = Warning" by (simp add: start_conversion_def)
  then show "conversion X ctl app fs = ([], fs)" by (simp add: conversion_def)
next
  fix t assume s: "start_conversion X app = Started t"
  then obtain out where t: "t = ConversionThread_init (app_file_list app) out
      (spin_value (quality_spinbox app)) (delete_original_checkbox app)"
    and ne: "app_file_list app \<noteq> []"
    by (auto simp add: start_conversion_def Let_def split: list.splits option.splits)
  from t show "file_list t = app_file_list app" by (simp add: ConversionThread_init_def)
  from t ne show "file_list t \<noteq> []" by (simp add: ConversionThread_init_def)
  from t reachable_quality [OF assms] show "1 \<le> quality t" "quality t \<le> 100"
    by (simp_all add: ConversionThread_init_def)
  from t show "is_running t" by (simp add: ConversionThread_init_def)
qed

theorem start_conversion_guards_witness:
  "reachable (edit_quality 101 (add_files [''/in/A.orf''] init_ui))
   \<and> start_conversion demo_external (edit_quality 101 (add_files [''/in/A.orf''] init_ui))
       = Started (ConversionThread_init [''/in/A.orf''] ''/in'' 100 False)
   \<and> quality (ConversionThread_init [''/in/A.orf''] ''/in'' 100 False) \<le> 100
   \<and> start_conversion demo_external (clear_list (add_files [''/in/A.orf''] init_ui)) = Warning"
proof -
  let ?app = "edit_quality 101 (add_files [''/in/A.orf''] init_ui)"
  let ?empty = "clear_list (add_files [''/in/A.orf''] init_ui)"
  have r: "reachable ?app" by (intro reachable.intros)
  have r': "reachable ?empty" by (intro reachable.intros)
  have s: "start_conversion demo_external ?app
      = Started (ConversionThread_init [''/in/A.orf''] ''/in'' 100 False)"
    by code_simp
  have e: "app_file_list ?empty = []" by (simp add: clear_list_def)
  from start_conversion_guards [OF r, of demo_external "\<lambda>i. False" demo_disk] s
  have "quality (ConversionThread_init [''/in/A.orf''] ''/in'' 100 False) \<le> 100" by blast
  moreover from start_conversion_guards [OF r', of demo_external "\<lambda>i. False" demo_disk] e
  have "start_conversion demo_external ?empty = Warning" by blast
  ultimately show ?thesis using r s by blast
qed

text \<open>
  C6 as stated fails: the constructor accepts an empty list with quality 0, and the run of
  that thread emits two signals; it accepts quality 101, which reaches the encoder.
\<close>

theorem construction_unchecked_counterexample:
  "emitted (run demo_external (\<lambda>i. False) (ConversionThread_init [] ''/out'' 0 False) demo_disk)
      = [finished_signal True, log_message (Completed 0 0)]
   \<and> disk (run demo_external (\<lambda>i. False)
        (ConversionThread_init [''/in/A.orf''] ''/out'' 101 False) demo_disk) ''/out/A.jpg''
      = Some [101, 1, 2, 3]"
  by code_simp


section \<open>Where the code departs from the claims\<close>

text \<open>
  C2. With no output folder chosen, \<open>start_conversion\<close> passes the folder of the first
  file as the output directory of the whole batch (line 252), although its comment
  (line 246) and the label of the window (line 134) speak of the folders of the source
  files. The second file, from another folder, is written beside the first.
\<close>

theorem source_relative_first_folder:
  "start_conversion demo_external (add_files [''/in/A.orf'', ''/other/C.orf''] init_ui)
     = Started (ConversionThread_init [''/in/A.orf'', ''/other/C.orf''] ''/in'' 95 False)
   \<and> snd (conversion demo_external (\<lambda>i. False)
        (add_files [''/in/A.orf'', ''/other/C.orf''] init_ui) demo_disk) ''/in/C.jpg''
      = Some [95, 4, 5]
   \<and> snd (conversion demo_external (\<lambda>i. False)
        (add_files [''/in/A.orf'', ''/other/C.orf''] init_ui) demo_disk) ''/other/C.jpg''
      = None"
  by code_simp

text \<open>
  C8. \<open>os.remove\<close> is inside the inner \<open>try\<close>: when it raises after a successful
  write, the handler emits the error line for the item and the success line is skipped,
  although the counter was already incremented (line 48) and the summary counts the item
  as successful; the output file is on disk.
\<close>

theorem delete_failure_reported_as_error:
  "emitted (run demo_external (\<lambda>i. False)
      (ConversionThread_init [''/in/keep.orf''] ''/out'' 90 True) demo_disk)
     = [log_message (Converting ''keep.orf''),
        log_message (Error ''keep.orf'' ''Permission denied''),
        progress 100, finished_signal True, log_message (Completed 1 1)]
   \<and> disk (run demo_external (\<lambda>i. False)
        (ConversionThread_init [''/in/keep.orf''] ''/out'' 90 True) demo_disk) ''/out/keep.jpg''
     = Some [90, 7]"
  by code_simp


section \<open>The empty batch\<close>

text \<open>
  C10. Started on an empty file list, \<open>run\<close> ends normally: it emits the finished signal
  once, with \<open>True\<close>, followed by the summary of zero out of zero, and no progress signal.
  The percentage, the only division by the number of files, is inside the loop body and is
  never evaluated, so the handler of the outer \<open>try\<close> is not entered.
\<close>

theorem run_empty_file_list:
  assumes "file_list t = []"
  shows "emitted (run X ctl t fs) = [finished_signal True, log_message (Completed 0 0)]
       \<and> loop X ctl (length (file_list t)) (enumerate 0 (file_list t)) m = (None, m)"
  using assms by (simp add: run_def emit_def)

theorem run_empty_file_list_witness:
  "file_list (ConversionThread_init [] ''/out'' 95 False) = []
   \<and> emitted (run demo_external (\<lambda>i. False) (ConversionThread_init [] ''/out'' 95 False) demo_disk)
       = [finished_signal True, log_message (Completed 0 0)]"
  using run_empty_file_list
    [of "ConversionThread_init [] ''/out'' 95 False" demo_external "\<lambda>i. False" demo_disk]
  by (simp add: ConversionThread_init_def)

end
